theory Spec2Isabelle
  imports Main
begin

section \<open>A supervisor of worker processes: \<open>run_kuzco_workers.py\<close>\<close>

text \<open>
  The program starts \<open>instances\<close> threads, each running \<open>run_worker\<close>, which keeps one
  shell child alive, reads its output line by line and restarts it; \<open>main\<close> restarts the
  whole fleet every 300 seconds. Everything outside the program (the operating system, the
  child processes, the clock, \<open>psutil\<close>, the other threads) is an environment whose answers
  are parameters of the model; every function returns the trace of the effects it performs,
  in the order in which it performs them.
\<close>

subsection \<open>Values\<close>

type_synonym pid = nat

text \<open>
  The exceptions of class \<open>Exception\<close> that the library calls of a worker thread raise.
  \<open>NoSuchProcess\<close> and \<open>AccessDenied\<close> are those of \<open>psutil\<close>.
\<close>

datatype exn = NoSuchProcess | AccessDenied | OSError | UnicodeDecodeError | OverflowError

text \<open>
  A \<open>datetime\<close> is counted in microseconds, the resolution of Python's \<open>datetime\<close>, and so
  is a \<open>timedelta\<close>: their arithmetic is exact integer arithmetic. The clock is the local
  wall clock, so later readings may be smaller.
\<close>

type_synonym datetime = int

type_synonym timedelta = int

text \<open>
  \<open>timedelta(minutes=m)\<close>: Python normalises to days, seconds and microseconds and raises
  \<open>OverflowError\<close> when the days, \<open>m // 1440\<close>, have a magnitude above 999999999.
\<close>

definition timedelta_minutes :: "int \<Rightarrow> exn + timedelta" where
  "timedelta_minutes m =
     (if - 999999999 \<le> m div 1440 \<and> m div 1440 \<le> 999999999
      then Inr (m * 60000000) else Inl OverflowError)"

text \<open>A Python \<open>str\<close>: the list of its Unicode code points.\<close>

type_synonym str = "nat list"

definition ascii :: "string \<Rightarrow> str" where
  "ascii s = map of_char s"

text \<open>
  A thread object: \<open>threading.Thread(target=run_worker, args=(command, i, silent,
  no_inference_timeout))\<close>. Python tells thread objects apart by identity; \<open>ident\<close> numbers
  them in the order of their creation.
\<close>

datatype thread =
  Thread (ident: nat) (t_command: string) (worker_id: nat) (t_silent: bool) (t_timeout: int)

text \<open>
  The effects. The \<open>Log\<close> constructors are the \<open>print\<close> calls, one constructor for each
  message of the source, with the values the message interpolates. \<open>ThreadJoin t\<close> is a
  \<open>t.join()\<close> that has returned. \<open>StallCompare b\<close> records that the comparison of line 67
  was evaluated, with its value; it prints nothing.
\<close>

datatype event =
    LogTerminating nat
  | LogForceKill nat pid
  | LogAlreadyTerminated nat
  | LogTermError nat exn
  | LogTermCompleted nat
  | LogRestarting nat
  | LogOutput nat str
  | LogStall nat int
  | LogError nat exn
  | LogStopping nat
  | LogCtrlC
  | LogRestartingAll
  | LogStarting int
  | LogStoppingAll
  | LogAllFinished
  | Children pid bool
  | SigTerm pid
  | WaitProcs "pid list" nat
  | SigKill pid
  | Popen string pid
  | Sleep int
  | StallCompare bool
  | SetStop
  | ClearStop
  | ThreadStart thread
  | ThreadJoin thread

subsection \<open>\<open>terminate_process\<close>\<close>

text \<open>
  The answers of \<open>psutil\<close> during one call of \<open>terminate_process\<close>:
  \<open>psutil.Process(pid)\<close> finds the process or raises; \<open>children(recursive=True)\<close> returns
  the descendants or raises; \<open>terminate()\<close> and \<open>kill()\<close> send their signal to a process or
  raise; \<open>wait_procs\<close> returns the processes that are gone and those still alive after the
  timeout (in the order the library chooses), or raises.
\<close>

record term_env =
  find_process :: "pid \<Rightarrow> exn option"
  children :: "pid \<Rightarrow> exn + pid list"
  terminate :: "pid \<Rightarrow> exn option"
  wait_procs :: "pid list \<Rightarrow> nat \<Rightarrow> exn + (pid list \<times> pid list)"
  kill :: "pid \<Rightarrow> exn option"

text \<open>\<open>for child in children: child.terminate()\<close>: the first exception ends the loop.\<close>

fun terminate_each :: "term_env \<Rightarrow> pid list \<Rightarrow> event list \<times> exn option" where
  "terminate_each env [] = ([], None)"
| "terminate_each env (p # ps) =
     (case terminate env p of
        Some x \<Rightarrow> ([], Some x)
      | None \<Rightarrow> (let (evs, r) = terminate_each env ps in (SigTerm p # evs, r)))"

text \<open>\<open>for p in alive: print(...); p.kill()\<close>.\<close>

fun kill_each :: "term_env \<Rightarrow> nat \<Rightarrow> pid list \<Rightarrow> event list \<times> exn option" where
  "kill_each env w [] = ([], None)"
| "kill_each env w (p # ps) =
     (case kill env p of
        Some x \<Rightarrow> ([LogForceKill w p], Some x)
      | None \<Rightarrow> (let (evs, r) = kill_each env w ps in (LogForceKill w p # SigKill p # evs, r)))"

text \<open>The body of the \<open>try\<close> (lines 18 to 32): its trace and the exception it raises, if any.\<close>

definition terminate_body :: "term_env \<Rightarrow> pid \<Rightarrow> nat \<Rightarrow> event list \<times> exn option" where
  "terminate_body env parent w =
     (case find_process env parent of
        Some x \<Rightarrow> ([], Some x)
      | None \<Rightarrow>
          (case children env parent of
             Inl x \<Rightarrow> ([], Some x)
           | Inr cs \<Rightarrow>
               (case terminate_each env cs of
                  (evs1, Some x) \<Rightarrow> (Children parent True # evs1, Some x)
                | (evs1, None) \<Rightarrow>
                    (case terminate env parent of
                       Some x \<Rightarrow> (Children parent True # evs1, Some x)
                     | None \<Rightarrow>
                         (case wait_procs env (cs @ [parent]) 3 of
                            Inl x \<Rightarrow> (Children parent True # evs1 @ [SigTerm parent], Some x)
                          | Inr (gone, alive) \<Rightarrow>
                              (let (evs2, r) = kill_each env w alive
                               in (Children parent True # evs1 @ SigTerm parent #
                                     WaitProcs (cs @ [parent]) 3 # evs2, r)))))))"

text \<open>
  \<open>terminate_process\<close> (lines 11 to 39). The second component is the exception that leaves
  the function; both \<open>except\<close> clauses print and fall through to the last \<open>print\<close>.
\<close>

definition terminate_process :: "term_env \<Rightarrow> pid option \<Rightarrow> nat \<Rightarrow> event list \<times> exn option" where
  "terminate_process env process w =
     (case process of
        None \<Rightarrow> ([], None)
      | Some parent \<Rightarrow>
          (case terminate_body env parent w of
             (evs, None) \<Rightarrow> (LogTerminating w # evs @ [LogTermCompleted w], None)
           | (evs, Some NoSuchProcess) \<Rightarrow>
               (LogTerminating w # evs @ [LogAlreadyTerminated w, LogTermCompleted w], None)
           | (evs, Some e) \<Rightarrow>
               (LogTerminating w # evs @ [LogTermError w e, LogTermCompleted w], None)))"

subsection \<open>\<open>run_worker\<close>\<close>

text \<open>
  \<open>str.strip()\<close> removes the white space at both ends; the white space of Python is the
  code points for which \<open>str.isspace\<close> holds. \<open>contains sub s\<close> is the test \<open>sub in s\<close>.
\<close>

definition is_space :: "nat \<Rightarrow> bool" where
  "is_space c =
     (c \<in> set ([0x09, 0x0A, 0x0B, 0x0C, 0x0D, 0x1C, 0x1D, 0x1E, 0x1F, 0x20, 0x85, 0xA0,
                0x1680] @ [0x2000..<0x200B] @ [0x2028, 0x2029, 0x202F, 0x205F, 0x3000]))"

definition strip :: "str \<Rightarrow> str" where
  "strip s = rev (dropWhile is_space (rev (dropWhile is_space s)))"

fun contains :: "str \<Rightarrow> str \<Rightarrow> bool" where
  "contains sub [] = (sub = [])"
| "contains sub (c # cs) = (take (length sub) (c # cs) = sub \<or> contains sub cs)"

text \<open>
  \<open>process.stdout.readline()\<close> returns a line (the empty string at end of file), raises,
  or does not return: the read blocks while the stream is open and no line has arrived.
\<close>

datatype read_result = Line str | ReadRaises exn | ReadBlocks

text \<open>
  What one iteration of the \<open>while\<close> loop observes, a field for each place of the source
  that asks the environment: \<open>stop_flag.is_set()\<close> (line 45), \<open>process.poll()\<close> (lines 46
  and 66, \<open>None\<close> while the child runs), \<open>subprocess.Popen\<close> (line 51), \<open>datetime.now()\<close>
  (lines 52, 63, 67 and 71), \<open>readline\<close> (line 56), and the answers of \<open>psutil\<close> to the
  calls of \<open>terminate_process\<close> of lines 49, 69, 75 and 81.
\<close>

record iter_env =
  stop_is_set :: bool
  poll_head :: "int option"
  term_restart :: term_env
  popen :: "exn + pid"
  now_spawn :: datetime
  readline :: read_result
  now_marker :: datetime
  poll_empty :: "int option"
  now_check :: datetime
  term_stall :: term_env
  now_reset :: datetime
  term_error :: term_env
  term_stop :: term_env

record worker_env =
  now_init :: datetime
  iterations :: "iter_env list"

text \<open>The local variables of \<open>run_worker\<close>.\<close>

record wstate =
  process :: "pid option"
  last_inference_time :: datetime

datatype 'a result = Ok 'a | Raises exn | BlocksInRead

text \<open>Lines 46 to 52: the child is started when there is none or when it has exited.\<close>

definition respawn :: "iter_env \<Rightarrow> string \<Rightarrow> nat \<Rightarrow> wstate \<Rightarrow> event list \<times> wstate result" where
  "respawn e command w s =
     (if process s = None \<or> poll_head e \<noteq> None then
        (case (if process s \<noteq> None
               then (let (evs, r) = terminate_process (term_restart e) (process s) w
                     in (LogRestarting w # evs, r))
               else ([], None)) of
           (evs, Some x) \<Rightarrow> (evs, Raises x)
         | (evs, None) \<Rightarrow>
             (case popen e of
                Inl x \<Rightarrow> (evs, Raises x)
              | Inr p \<Rightarrow>
                  (evs @ [Popen command p],
                   Ok \<lparr>process = Some p, last_inference_time = now_spawn e\<rparr>)))
      else ([], Ok s))"

text \<open>
  Lines 56 to 71, the body of the \<open>try\<close>. On line 67 the difference of the two times is
  taken first; the \<open>timedelta\<close> is built next, and when that raises nothing is compared.
\<close>

definition try_body :: "iter_env \<Rightarrow> nat \<Rightarrow> bool \<Rightarrow> int \<Rightarrow> wstate \<Rightarrow> event list \<times> wstate result" where
  "try_body e w silent no_inference_timeout s =
     (case readline e of
        ReadBlocks \<Rightarrow> ([], BlocksInRead)
      | ReadRaises x \<Rightarrow> ([], Raises x)
      | Line output \<Rightarrow>
          (if output \<noteq> [] then
             ((if \<not> silent then [LogOutput w (strip output)] else []),
              Ok (if contains (ascii ''Inference finished'') output
                  then s\<lparr>last_inference_time := now_marker e\<rparr> else s))
           else if poll_empty e = None then
             (case timedelta_minutes no_inference_timeout of
                Inl x \<Rightarrow> ([], Raises x)
              | Inr timeout \<Rightarrow>
                  (if now_check e - last_inference_time s > timeout then
                     (case terminate_process (term_stall e) (process s) w of
                        (evs, Some x) \<Rightarrow>
                          (StallCompare True # LogStall w no_inference_timeout # evs, Raises x)
                      | (evs, None) \<Rightarrow>
                          (StallCompare True # LogStall w no_inference_timeout # evs,
                           Ok \<lparr>process = None, last_inference_time = now_reset e\<rparr>))
                   else ([StallCompare False], Ok s)))
           else ([], Ok s)))"

text \<open>Lines 54 to 77: the \<open>try\<close> with its \<open>except Exception\<close>.\<close>

definition read_step :: "iter_env \<Rightarrow> nat \<Rightarrow> bool \<Rightarrow> int \<Rightarrow> wstate \<Rightarrow> event list \<times> wstate result" where
  "read_step e w silent no_inference_timeout s =
     (case try_body e w silent no_inference_timeout s of
        (evs, Raises x) \<Rightarrow>
          (case terminate_process (term_error e) (process s) w of
             (tevs, Some y) \<Rightarrow> (evs @ LogError w x # tevs, Raises y)
           | (tevs, None) \<Rightarrow> (evs @ LogError w x # tevs @ [Sleep 5], Ok (s\<lparr>process := None\<rparr>)))
      | r \<Rightarrow> r)"

text \<open>One iteration of the loop, lines 46 to 77.\<close>

definition loop_body :: "iter_env \<Rightarrow> string \<Rightarrow> nat \<Rightarrow> bool \<Rightarrow> int \<Rightarrow> wstate \<Rightarrow> event list \<times> wstate result" where
  "loop_body e command w silent no_inference_timeout s =
     (case respawn e command w s of
        (evs, Ok s1) \<Rightarrow>
          (let (evs', r) = read_step e w silent no_inference_timeout s1 in (evs @ evs', r))
      | r \<Rightarrow> r)"

text \<open>Lines 79 to 81, after the loop.\<close>

datatype outcome = Returned | Raised exn | BlockedInRead | StillRunning

definition after_loop :: "iter_env \<Rightarrow> nat \<Rightarrow> wstate \<Rightarrow> event list \<times> outcome" where
  "after_loop e w s =
     (if process s \<noteq> None then
        (case terminate_process (term_stop e) (process s) w of
           (evs, Some x) \<Rightarrow> (LogStopping w # evs, Raised x)
         | (evs, None) \<Rightarrow> (LogStopping w # evs, Returned))
      else ([], Returned))"

text \<open>
  The loop of line 45 over the observations of its iterations. The loop has no bound of
  its own: when the observations end before the stop flag is seen, the worker is still
  running.
\<close>

fun worker_loop :: "string \<Rightarrow> nat \<Rightarrow> bool \<Rightarrow> int \<Rightarrow> iter_env list \<Rightarrow> wstate \<Rightarrow> event list \<times> outcome" where
  "worker_loop command w silent t [] s = ([], StillRunning)"
| "worker_loop command w silent t (e # es) s =
     (if stop_is_set e then after_loop e w s
      else
        (case loop_body e command w silent t s of
           (evs, Ok s') \<Rightarrow>
             (let (evs', r) = worker_loop command w silent t es s' in (evs @ evs', r))
         | (evs, Raises x) \<Rightarrow> (evs, Raised x)
         | (evs, BlocksInRead) \<Rightarrow> (evs, BlockedInRead)))"

definition run_worker :: "worker_env \<Rightarrow> string \<Rightarrow> nat \<Rightarrow> bool \<Rightarrow> int \<Rightarrow> event list \<times> outcome" where
  "run_worker env command w silent no_inference_timeout =
     worker_loop command w silent no_inference_timeout (iterations env)
       \<lparr>process = None, last_inference_time = now_init env\<rparr>"

subsection \<open>The supervisor: \<open>signal_handler\<close>, \<open>restart_all_workers\<close>, \<open>main\<close>\<close>

text \<open>The parsed command line (lines 103 to 108).\<close>

record args =
  command :: string
  instances :: int
  silent :: bool
  no_inference_timeout :: int

text \<open>
  The handler of \<open>SIGINT\<close>: Python's own handler raises \<open>KeyboardInterrupt\<close> in the main
  thread; \<open>signal.signal(signal.SIGINT, signal_handler)\<close> (line 110) puts the program's
  function in its place.
\<close>

datatype handler = DefaultIntHandler | SignalHandler

text \<open>The state the main thread works on: the global \<open>stop_flag\<close>, the handler table, and
  the number of thread objects created so far.\<close>

record sup_state =
  stop_flag :: bool
  sigint :: handler
  created :: nat

text \<open>Lines 83 to 85.\<close>

definition signal_handler :: "sup_state \<Rightarrow> event list \<times> sup_state" where
  "signal_handler st = ([LogCtrlC, SetStop], st\<lparr>stop_flag := True\<rparr>)"

text \<open>
  \<open>thread.join()\<close> returns once the thread's \<open>run_worker\<close> has returned or has raised (an
  exception ends the thread); it does not return while the worker runs or is blocked in a
  read. The first argument gives, for each thread object, what its worker observes.
\<close>

definition join :: "(nat \<Rightarrow> worker_env) \<Rightarrow> thread \<Rightarrow> bool" where
  "join wenv t =
     (case snd (run_worker (wenv (ident t)) (t_command t) (worker_id t) (t_silent t) (t_timeout t)) of
        Returned \<Rightarrow> True
      | Raised x \<Rightarrow> True
      | BlockedInRead \<Rightarrow> False
      | StillRunning \<Rightarrow> False)"

text \<open>\<open>for thread in threads: thread.join()\<close>; \<open>Some t\<close> when the join of \<open>t\<close> does not return.\<close>

fun join_all :: "(nat \<Rightarrow> worker_env) \<Rightarrow> thread list \<Rightarrow> event list \<times> thread option" where
  "join_all wenv [] = ([], None)"
| "join_all wenv (t # ts) =
     (if join wenv t
      then (let (evs, r) = join_all wenv ts in (ThreadJoin t # evs, r))
      else ([], Some t))"

text \<open>
  The loops of lines 116 to 120 and 95 to 99: for each \<open>i\<close> of the range, create the
  thread, start it, append it, sleep one second.
\<close>

fun start_threads :: "nat \<Rightarrow> string \<Rightarrow> bool \<Rightarrow> int \<Rightarrow> nat list \<Rightarrow> event list \<times> thread list" where
  "start_threads k c sl tm [] = ([], [])"
| "start_threads k c sl tm (i # is) =
     (let thread = Thread k c i sl tm;
          (evs, new_threads) = start_threads (Suc k) c sl tm is
      in (ThreadStart thread # Sleep 1 # evs, thread # new_threads))"

text \<open>\<open>range(n)\<close> for a Python integer \<open>n\<close>: empty when \<open>n\<close> is not positive.\<close>

definition py_range :: "int \<Rightarrow> nat list" where
  "py_range n = [0..<nat n]"

datatype 'a progress = Continues 'a | JoinBlocks thread

text \<open>Lines 87 to 100.\<close>

definition restart_all_workers ::
  "(nat \<Rightarrow> worker_env) \<Rightarrow> sup_state \<Rightarrow> thread list \<Rightarrow> string \<Rightarrow> bool \<Rightarrow> int \<Rightarrow>
   event list \<times> (sup_state \<times> thread list) progress" where
  "restart_all_workers wenv st threads c sl tm =
     (case join_all wenv threads of
        (evs, Some t) \<Rightarrow> (LogRestartingAll # SetStop # evs, JoinBlocks t)
      | (evs, None) \<Rightarrow>
          (let (evs', new_threads) = start_threads (created st) c sl tm (py_range (int (length threads)))
           in (LogRestartingAll # SetStop # evs @ ClearStop # evs',
               Continues (st\<lparr>stop_flag := False, created := created st + length threads\<rparr>,
                          new_threads))))"

text \<open>
  What happens to the main thread while it is in \<open>time.sleep(300)\<close>, where it spends its
  time: a \<open>SIGINT\<close> arrives, or the 300 seconds are over. A handler that returns lets the
  sleep go on; a handler that raises ends it with the exception. Signals that arrive during
  the startup or during a restart are not part of the model.
\<close>

datatype main_event = SIGINT | Slept

datatype main_result =
    Exits
  | JoinBlocked thread
  | Sleeping sup_state "thread list"

text \<open>Lines 126 to 132, the \<open>except KeyboardInterrupt\<close>.\<close>

definition on_keyboard_interrupt ::
  "(nat \<Rightarrow> worker_env) \<Rightarrow> args \<Rightarrow> sup_state \<Rightarrow> thread list \<Rightarrow> event list \<times> main_result" where
  "on_keyboard_interrupt wenv a st threads =
     (case join_all wenv threads of
        (evs, Some t) \<Rightarrow> (LogStoppingAll # SetStop # evs, JoinBlocked t)
      | (evs, None) \<Rightarrow>
          (LogStoppingAll # SetStop # evs @ (if \<not> silent a then [LogAllFinished] else []), Exits))"

text \<open>Lines 122 to 125, the \<open>while True\<close> inside the \<open>try\<close>.\<close>

fun main_loop ::
  "(nat \<Rightarrow> worker_env) \<Rightarrow> args \<Rightarrow> main_event list \<Rightarrow> sup_state \<Rightarrow> thread list \<Rightarrow>
   event list \<times> main_result" where
  "main_loop wenv a [] st threads = ([], Sleeping st threads)"
| "main_loop wenv a (SIGINT # es) st threads =
     (case sigint st of
        SignalHandler \<Rightarrow>
          (let (evs, st') = signal_handler st;
               (evs', r) = main_loop wenv a es st' threads
           in (evs @ evs', r))
      | DefaultIntHandler \<Rightarrow> on_keyboard_interrupt wenv a st threads)"
| "main_loop wenv a (Slept # es) st threads =
     (case restart_all_workers wenv st threads (command a) (silent a) (no_inference_timeout a) of
        (evs, JoinBlocks t) \<Rightarrow> (Sleep 300 # evs, JoinBlocked t)
      | (evs, Continues (st', threads')) \<Rightarrow>
          (let (evs', r) = main_loop wenv a es st' threads' in (Sleep 300 # evs @ evs', r)))"

text \<open>Lines 110 to 125: install the handler, start the fleet, enter the loop.\<close>

definition startup :: "args \<Rightarrow> event list \<times> thread list" where
  "startup a =
     (let (evs, threads) =
            start_threads 0 (command a) (silent a) (no_inference_timeout a) (py_range (instances a))
      in ((if \<not> silent a then [LogStarting (instances a)] else []) @ evs, threads))"

definition main :: "(nat \<Rightarrow> worker_env) \<Rightarrow> args \<Rightarrow> main_event list \<Rightarrow> event list \<times> main_result" where
  "main wenv a script =
     (let (evs, threads) = startup a;
          st = \<lparr>stop_flag = False, sigint = SignalHandler, created = length threads\<rparr>;
          (evs', r) = main_loop wenv a script st threads
      in (evs @ evs', r))"

subsection \<open>Reading traces\<close>

text \<open>
  The threads that may be running: a thread runs from its start until its \<open>join\<close> has
  returned. \<open>running S evs\<close> is that set after the trace \<open>evs\<close>, from the set \<open>S\<close>;
  \<open>always P S evs\<close> says that \<open>P\<close> holds of it before and after every event of \<open>evs\<close>.
\<close>

fun step_running :: "thread set \<Rightarrow> event \<Rightarrow> thread set" where
  "step_running S (ThreadStart t) = insert t S"
| "step_running S (ThreadJoin t) = S - {t}"
| "step_running S ev = S"

fun running :: "thread set \<Rightarrow> event list \<Rightarrow> thread set" where
  "running S [] = S"
| "running S (ev # evs) = running (step_running S ev) evs"

fun always :: "(thread set \<Rightarrow> bool) \<Rightarrow> thread set \<Rightarrow> event list \<Rightarrow> bool" where
  "always P S [] = P S"
| "always P S (ev # evs) = (P S \<and> always P (step_running S ev) evs)"

text \<open>No two threads of the set run the same worker id.\<close>

definition unique_ids :: "thread set \<Rightarrow> bool" where
  "unique_ids S = (\<forall>t\<in>S. \<forall>u\<in>S. worker_id t = worker_id u \<longrightarrow> t = u)"

text \<open>The worker ids of the threads a trace starts, in the order of their start.\<close>

fun started :: "event list \<Rightarrow> nat list" where
  "started [] = []"
| "started (ThreadStart t # evs) = worker_id t # started evs"
| "started (ev # evs) = started evs"

text \<open>Every start of a thread is followed at once by \<open>time.sleep(1)\<close>.\<close>

fun staggered :: "event list \<Rightarrow> bool" where
  "staggered [] = True"
| "staggered (ThreadStart t # evs) =
     (case evs of Sleep n # evs' \<Rightarrow> n = 1 \<and> staggered evs' | _ \<Rightarrow> False)"
| "staggered (ev # evs) = staggered evs"

text \<open>The events of the stall path: the comparison of line 67 and the message of line 68.\<close>

fun is_stall :: "event \<Rightarrow> bool" where
  "is_stall (StallCompare b) = True"
| "is_stall (LogStall w t) = True"
| "is_stall ev = False"

text \<open>The events of \<open>terminate_process\<close> that reach a child process.\<close>

fun touches_child :: "event \<Rightarrow> bool" where
  "touches_child (Children p b) = True"
| "touches_child (SigTerm p) = True"
| "touches_child (WaitProcs ps n) = True"
| "touches_child (SigKill p) = True"
| "touches_child ev = False"

text \<open>
  The running threads are all of the old generation, or none of them is: no thread of
  \<open>old\<close> runs together with a thread that is not of \<open>old\<close>.
\<close>

definition apart :: "thread set \<Rightarrow> thread set \<Rightarrow> bool" where
  "apart old A = (A \<subseteq> old \<or> A \<inter> old = {})"

subsection \<open>Environments used as examples\<close>

text \<open>
  A process 10 with the descendants 11 and 12, all of which take the signals; 12 is still
  alive three seconds later.
\<close>

definition quiet_env :: term_env where
  "quiet_env =
     \<lparr>find_process = (\<lambda>_. None), children = (\<lambda>_. Inr [11, 12]), terminate = (\<lambda>_. None),
      wait_procs = (\<lambda>ps _. Inr ([11, 10], [12])), kill = (\<lambda>_. None)\<rparr>"

text \<open>The process has exited and has been reaped: \<open>psutil.Process(pid)\<close> raises.\<close>

definition gone_env :: term_env where
  "gone_env = quiet_env\<lparr>find_process := (\<lambda>_. Some NoSuchProcess)\<rparr>"

text \<open>
  The descendant 11 is enumerated and exits before its signal is sent: its \<open>terminate()\<close>
  raises. The parent 10 and the descendant 12 are running.
\<close>

definition race_env :: term_env where
  "race_env = quiet_env\<lparr>terminate := (\<lambda>p. if p = 11 then Some NoSuchProcess else None)\<rparr>"

text \<open>The descendant 12 belongs to another user.\<close>

definition denied_env :: term_env where
  "denied_env = quiet_env\<lparr>terminate := (\<lambda>p. if p = 12 then Some AccessDenied else None)\<rparr>"

text \<open>An iteration in which the child 10 runs and the read returns the empty string.\<close>

definition idle_iter :: iter_env where
  "idle_iter =
     \<lparr>stop_is_set = False, poll_head = None, term_restart = gone_env, popen = Inr 10,
      now_spawn = 0, readline = Line [], now_marker = 0, poll_empty = None, now_check = 0,
      term_stall = quiet_env, now_reset = 0, term_error = quiet_env, term_stop = quiet_env\<rparr>"

text \<open>The first \<open>Popen\<close> of a worker fails, as when the system has no process or descriptor left.\<close>

definition spawn_fails :: worker_env where
  "spawn_fails = \<lparr>now_init = 0, iterations = [idle_iter\<lparr>popen := Inl OSError\<rparr>]\<rparr>"

text \<open>
  The command \<open>echo A; sleep 600\<close>: the child \<open>p\<close> prints the line \<open>A\<close>, then sleeps with its
  end of the pipe open, so the second read does not return while it sleeps; the clock of
  that iteration stands 61 seconds after the spawn.
\<close>

definition first_line :: "pid \<Rightarrow> iter_env" where
  "first_line p = idle_iter\<lparr>popen := Inr p, readline := Line (ascii ''A'' @ [0x0A])\<rparr>"

definition silent_child :: "datetime \<Rightarrow> iter_env" where
  "silent_child t =
     idle_iter\<lparr>readline := ReadBlocks, now_marker := t, now_check := t, now_reset := t\<rparr>"

definition echo_sleep :: "pid \<Rightarrow> worker_env" where
  "echo_sleep p = \<lparr>now_init = 0, iterations = [first_line p, silent_child 61000000]\<rparr>"

text \<open>
  The child 10 runs since time 0 and has printed nothing since; the read returns the empty
  string at time \<open>t\<close> while the child runs.
\<close>

definition running_worker :: wstate where
  "running_worker = \<lparr>process = Some 10, last_inference_time = 0\<rparr>"

definition empty_read_at :: "datetime \<Rightarrow> iter_env" where
  "empty_read_at t = idle_iter\<lparr>now_check := t, now_reset := t\<rparr>"

text \<open>
  A worker that passes one line on and then sees the stop flag: it terminates its child
  and returns. A fleet of such workers, and a fleet of workers whose children print one
  line and then hang.
\<close>

definition obedient :: worker_env where
  "obedient = \<lparr>now_init = 0, iterations = [first_line 100, idle_iter\<lparr>stop_is_set := True\<rparr>]\<rparr>"

definition obedient_fleet :: "nat \<Rightarrow> worker_env" where
  "obedient_fleet = (\<lambda>_. obedient)"


definition one_worker :: args where
  "one_worker = \<lparr>command = ''kuzco'', instances = 1, silent = False, no_inference_timeout = 60\<rparr>"

definition two_workers :: args where
  "two_workers = \<lparr>command = ''kuzco'', instances = 2, silent = True, no_inference_timeout = 60\<rparr>"

text \<open>The state of the main thread in its loop, after \<open>n\<close> thread objects were created.\<close>

definition fresh_state :: "nat \<Rightarrow> sup_state" where
  "fresh_state n = \<lparr>stop_flag = False, sigint = SignalHandler, created = n\<rparr>"

section \<open>Properties of \<open>terminate_process\<close>\<close>

lemma terminate_each_ok:
  "\<forall>p\<in>set ps. terminate env p = None \<Longrightarrow> terminate_each env ps = (map SigTerm ps, None)"
  by (induction ps) auto

lemma kill_each_ok:
  "\<forall>p\<in>set ps. kill env p = None \<Longrightarrow>
   kill_each env w ps = (concat (map (\<lambda>p. [LogForceKill w p, SigKill p]) ps), None)"
  by (induction ps) auto

lemma terminate_process_returns: "snd (terminate_process env proc w) = None"
  by (simp add: terminate_process_def split: option.splits prod.splits exn.splits)

lemma terminate_process_pair:
  "terminate_process env proc w = (fst (terminate_process env proc w), None)"
  by (metis prod.collapse terminate_process_returns)

text \<open>
  C9. No exception leaves \<open>terminate_process\<close>. When the body of its \<open>try\<close> raises
  \<open>NoSuchProcess\<close> (the process is already gone) the function prints that the process has
  already terminated; when it raises any other exception it prints the error with the
  worker id; in both cases it goes on to its last message and returns.
\<close>

theorem terminate_process_absorbs_errors:
  "snd (terminate_process env proc w) = None \<and>
   (\<forall>parent evs x. proc = Some parent \<and> terminate_body env parent w = (evs, Some x) \<longrightarrow>
      fst (terminate_process env proc w) =
        LogTerminating w # evs @
          [if x = NoSuchProcess then LogAlreadyTerminated w else LogTermError w x,
           LogTermCompleted w])"
  by (auto simp add: terminate_process_def split: option.splits prod.splits exn.splits)

theorem terminate_process_absorbs_errors_witness:
  "terminate_body denied_env 10 7 = ([Children 10 True, SigTerm 11], Some AccessDenied) \<and>
   terminate_process denied_env (Some 10) 7 =
     ([LogTerminating 7, Children 10 True, SigTerm 11, LogTermError 7 AccessDenied,
       LogTermCompleted 7], None)"
proof -
  have b: "terminate_body denied_env 10 7 = ([Children 10 True, SigTerm 11], Some AccessDenied)"
    by (simp add: terminate_body_def denied_env_def quiet_env_def)
  from terminate_process_absorbs_errors [of denied_env "Some 10" 7] b
  have "snd (terminate_process denied_env (Some 10) 7) = None"
    and "fst (terminate_process denied_env (Some 10) 7) =
      [LogTerminating 7, Children 10 True, SigTerm 11, LogTermError 7 AccessDenied,
       LogTermCompleted 7]"
    by simp_all
  with b show ?thesis by (simp add: prod_eq_iff)
qed

text \<open>
  A process that has exited and has been reaped, as in the call of line 49 after \<open>poll\<close> has
  reported the exit: there is nothing left to signal, and nothing is signalled.
\<close>

lemma terminate_process_exited_parent:
  "terminate_process gone_env (Some 10) 7 =
     ([LogTerminating 7, LogAlreadyTerminated 7, LogTermCompleted 7], None)"
  by (simp add: terminate_process_def terminate_body_def gone_env_def quiet_env_def)

text \<open>
  As long as no call of \<open>psutil\<close> raises, the function enumerates the descendants
  (\<open>recursive=True\<close>), sends the terminate signal to each of them in turn and then to the
  parent, waits for all of them with a timeout of 3 seconds, and sends the kill signal to
  exactly the processes that \<open>wait_procs\<close> reports alive. On \<open>None\<close> it does nothing.
\<close>

lemma terminate_process_protocol:
  assumes "find_process env parent = None"
    and "children env parent = Inr cs"
    and "\<forall>p\<in>set (cs @ [parent]). terminate env p = None"
    and "wait_procs env (cs @ [parent]) 3 = Inr (gone, alive)"
    and "\<forall>p\<in>set alive. kill env p = None"
  shows "terminate_process env None w = ([], None) \<and>
     terminate_process env (Some parent) w =
       (LogTerminating w # Children parent True # map SigTerm cs @
          [SigTerm parent, WaitProcs (cs @ [parent]) 3] @
          concat (map (\<lambda>p. [LogForceKill w p, SigKill p]) alive) @ [LogTermCompleted w],
        None)"
proof -
  have t: "terminate_each env cs = (map SigTerm cs, None)"
    using assms(3) by (intro terminate_each_ok) simp
  have p: "terminate env parent = None"
    using assms(3) by simp
  have k: "kill_each env w alive = (concat (map (\<lambda>p. [LogForceKill w p, SigKill p]) alive), None)"
    using assms(5) by (rule kill_each_ok)
  show ?thesis
    by (simp add: terminate_process_def terminate_body_def assms(1,2,4) t p k)
qed

lemma terminate_process_protocol_example:
  "find_process quiet_env 10 = None \<and> children quiet_env 10 = Inr [11, 12] \<and>
   terminate quiet_env 11 = None \<and> terminate quiet_env 12 = None \<and>
   terminate quiet_env 10 = None \<and>
   wait_procs quiet_env ([11, 12] @ [10]) 3 = Inr ([11, 10], [12]) \<and>
   kill quiet_env 12 = None \<and>
   terminate_process quiet_env None 7 = ([], None) \<and>
   terminate_process quiet_env (Some 10) 7 =
     ([LogTerminating 7, Children 10 True, SigTerm 11, SigTerm 12, SigTerm 10,
       WaitProcs [11, 12, 10] 3, LogForceKill 7 12, SigKill 12, LogTermCompleted 7], None)"
proof -
  have h1: "find_process quiet_env 10 = None" by (simp add: quiet_env_def)
  have h2: "children quiet_env 10 = Inr [11, 12]" by (simp add: quiet_env_def)
  have h3: "\<forall>p\<in>set ([11, 12] @ [10]). terminate quiet_env p = None" by (simp add: quiet_env_def)
  have h4: "wait_procs quiet_env ([11, 12] @ [10]) 3 = Inr ([11, 10], [12])"
    by (simp add: quiet_env_def)
  have h5: "\<forall>p\<in>set [12]. kill quiet_env p = None" by (simp add: quiet_env_def)
  from terminate_process_protocol [OF h1 h2 h3 h4 h5, of 7] h1 h2 h3 h4 h5
  show ?thesis by simp
qed

text \<open>
  C6. The process 10 runs and has the descendants 11 and 12; 11 exits after the enumeration
  and before its signal. Its \<open>terminate()\<close> raises \<open>NoSuchProcess\<close>, which leaves the one \<open>try\<close>
  that holds the whole protocol: no signal goes to the descendant 12 or to the parent 10,
  nothing is waited for, nothing is killed, and the function prints that the process has
  already terminated.
\<close>

theorem terminate_process_race_skips_parent:
  "terminate_process race_env (Some 10) 7 =
     ([LogTerminating 7, Children 10 True, LogAlreadyTerminated 7, LogTermCompleted 7], None)"
  by (simp add: terminate_process_def terminate_body_def race_env_def quiet_env_def)

section \<open>Properties of \<open>run_worker\<close>\<close>

subsection \<open>The stall check\<close>

lemma terminate_each_no_stall:
  "terminate_each env ps = (evs, r) \<Longrightarrow> ev \<in> set evs \<Longrightarrow> \<not> is_stall ev"
  by (induction ps arbitrary: evs r) (auto split: option.splits prod.splits)

lemma kill_each_no_stall:
  "kill_each env w ps = (evs, r) \<Longrightarrow> ev \<in> set evs \<Longrightarrow> \<not> is_stall ev"
  by (induction ps arbitrary: evs r) (auto split: option.splits prod.splits)

lemma terminate_body_no_stall:
  "terminate_body env p w = (evs, r) \<Longrightarrow> ev \<in> set evs \<Longrightarrow> \<not> is_stall ev"
  by (auto simp: terminate_body_def split: option.splits sum.splits prod.splits
      dest: terminate_each_no_stall kill_each_no_stall)

lemma terminate_process_no_stall:
  "terminate_process env p w = (evs, r) \<Longrightarrow> ev \<in> set evs \<Longrightarrow> \<not> is_stall ev"
  by (auto simp: terminate_process_def split: option.splits prod.splits exn.splits
      dest: terminate_body_no_stall)

lemma respawn_no_stall:
  "respawn e c w s = (evs, r) \<Longrightarrow> ev \<in> set evs \<Longrightarrow> \<not> is_stall ev"
  by (auto simp: respawn_def split: if_splits option.splits prod.splits sum.splits
      dest: terminate_process_no_stall)

lemma try_body_stall:
  "try_body e w sl tm s = (evs, r) \<Longrightarrow> ev \<in> set evs \<Longrightarrow> is_stall ev \<Longrightarrow>
   readline e = Line [] \<and> poll_empty e = None"
  by (auto simp: try_body_def
      split: read_result.splits if_splits prod.splits option.splits sum.splits)

lemma read_step_stall:
  "read_step e w sl tm s = (evs, r) \<Longrightarrow> ev \<in> set evs \<Longrightarrow> is_stall ev \<Longrightarrow>
   readline e = Line [] \<and> poll_empty e = None"
  by (auto simp: read_step_def split: prod.splits result.splits option.splits
      dest: try_body_stall terminate_process_no_stall)

lemma loop_body_stall:
  "loop_body e c w sl tm s = (evs, r) \<Longrightarrow> ev \<in> set evs \<Longrightarrow> is_stall ev \<Longrightarrow>
   readline e = Line [] \<and> poll_empty e = None"
  by (auto simp: loop_body_def split: prod.splits result.splits
      dest: read_step_stall respawn_no_stall)

lemma after_loop_no_stall:
  "after_loop e w s = (evs, r) \<Longrightarrow> ev \<in> set evs \<Longrightarrow> \<not> is_stall ev"
  by (auto simp: after_loop_def split: if_splits prod.splits option.splits
      dest: terminate_process_no_stall)

lemma worker_loop_stall:
  "worker_loop c w sl tm es s = (evs, r) \<Longrightarrow> ev \<in> set evs \<Longrightarrow> is_stall ev \<Longrightarrow>
   \<exists>e\<in>set es. readline e = Line [] \<and> poll_empty e = None"
proof (induction es arbitrary: s evs r)
  case Nil
  then show ?case by simp
next
  case (Cons e es)
  show ?case
  proof (cases "stop_is_set e")
    case True
    with Cons.prems show ?thesis by (auto dest: after_loop_no_stall)
  next
    case False
    obtain evs1 r1 where b: "loop_body e c w sl tm s = (evs1, r1)" by force
    show ?thesis
    proof (cases r1)
      case (Ok s')
      obtain evs2 r2 where l: "worker_loop c w sl tm es s' = (evs2, r2)" by force
      from Cons.prems False b Ok l have "evs = evs1 @ evs2" by simp
      with Cons.prems(2) consider "ev \<in> set evs1" | "ev \<in> set evs2" by auto
      then show ?thesis
      proof cases
        case 1
        with b Cons.prems(3) show ?thesis by (auto dest: loop_body_stall)
      next
        case 2
        with Cons.IH [OF l] Cons.prems(3) show ?thesis by auto
      qed
    next
      case (Raises x)
      with Cons.prems False b show ?thesis by (auto dest: loop_body_stall)
    next
      case BlocksInRead
      with Cons.prems False b show ?thesis by (auto dest: loop_body_stall)
    qed
  qed
qed

text \<open>
  For a timeout that \<open>timedelta\<close> can represent. In an iteration that reaches the read (the
  state is \<open>s1\<close> once lines 46 to 52 are done), when the read returns the empty string and
  \<open>poll\<close> reports the child still running: the stall branch is taken exactly when the time
  since \<open>last_inference_time\<close> is strictly greater than the timeout, counted in minutes. Then
  the child is handed to \<open>terminate_process\<close>, \<open>process\<close> becomes \<open>None\<close> and
  \<open>last_inference_time\<close> becomes the current time. Otherwise, and so when the time elapsed
  equals the timeout, nothing is terminated and the state stays as it is.
\<close>

lemma stall_check_strict:
  assumes "respawn e c w s = (evs0, Ok s1)"
    and "readline e = Line []"
    and "poll_empty e = None"
    and "- 999999999 \<le> tm div 1440" and "tm div 1440 \<le> 999999999"
  shows "loop_body e c w sl tm s =
     (if now_check e - last_inference_time s1 > tm * 60000000
      then (evs0 @ StallCompare True # LogStall w tm #
              fst (terminate_process (term_stall e) (process s1) w),
            Ok \<lparr>process = None, last_inference_time = now_reset e\<rparr>)
      else (evs0 @ [StallCompare False], Ok s1))"
proof -
  obtain tevs where t: "terminate_process (term_stall e) (process s1) w = (tevs, None)"
    using terminate_process_pair by blast
  show ?thesis
    by (simp add: loop_body_def read_step_def try_body_def timedelta_minutes_def assms t)
qed

lemma stall_check_strict_example:
  "loop_body (empty_read_at 60000000) ''kuzco'' 0 False 1 running_worker =
     ([StallCompare False], Ok running_worker) \<and>
   loop_body (empty_read_at 60000001) ''kuzco'' 0 False 1 running_worker =
     ([StallCompare True, LogStall 0 1, LogTerminating 0, Children 10 True, SigTerm 11,
       SigTerm 12, SigTerm 10, WaitProcs [11, 12, 10] 3, LogForceKill 0 12, SigKill 12,
       LogTermCompleted 0],
      Ok \<lparr>process = None, last_inference_time = 60000001\<rparr>)"
proof -
  have r: "respawn (empty_read_at t) ''kuzco'' 0 running_worker = ([], Ok running_worker)" for t
    by (simp add: respawn_def empty_read_at_def idle_iter_def running_worker_def)
  have l: "readline (empty_read_at t) = Line []" for t
    by (simp add: empty_read_at_def idle_iter_def)
  have p: "poll_empty (empty_read_at t) = None" for t
    by (simp add: empty_read_at_def idle_iter_def)
  have t: "fst (terminate_process (term_stall (empty_read_at 60000001)) (Some 10) 0) =
     [LogTerminating 0, Children 10 True, SigTerm 11, SigTerm 12, SigTerm 10,
      WaitProcs [11, 12, 10] 3, LogForceKill 0 12, SigKill 12, LogTermCompleted 0]"
    by (simp add: terminate_process_def terminate_body_def empty_read_at_def idle_iter_def
        quiet_env_def)
  have a: "loop_body (empty_read_at 60000000) ''kuzco'' 0 False 1 running_worker =
      ([StallCompare False], Ok running_worker)"
    using stall_check_strict [OF r l p, where tm = 1 and sl = False]
    by (simp add: empty_read_at_def running_worker_def)
  have b: "loop_body (empty_read_at 60000001) ''kuzco'' 0 False 1 running_worker =
     ([StallCompare True, LogStall 0 1, LogTerminating 0, Children 10 True, SigTerm 11,
       SigTerm 12, SigTerm 10, WaitProcs [11, 12, 10] 3, LogForceKill 0 12, SigKill 12,
       LogTermCompleted 0],
      Ok \<lparr>process = None, last_inference_time = 60000001\<rparr>)"
    using stall_check_strict [OF r l p, where tm = 1 and sl = False] t
    by (simp add: empty_read_at_def running_worker_def)
  from a b show ?thesis by simp
qed

text \<open>
  C5. With a timeout of 1440000000000 minutes, which the command line accepts: the child
  10 runs since time 0 and the read returns the empty string at time 0, so no time has
  passed. \<open>timedelta\<close> raises \<open>OverflowError\<close> on line 67, the \<open>except\<close> of line 73 catches it,
  and the child is terminated although the time elapsed is not greater than the timeout;
  no comparison is made.
\<close>

theorem stall_timeout_overflow_terminates:
  "loop_body (empty_read_at 0) ''kuzco'' 0 False 1440000000000 running_worker =
     ([LogError 0 OverflowError, LogTerminating 0, Children 10 True, SigTerm 11, SigTerm 12,
       SigTerm 10, WaitProcs [11, 12, 10] 3, LogForceKill 0 12, SigKill 12,
       LogTermCompleted 0, Sleep 5],
      Ok \<lparr>process = None, last_inference_time = 0\<rparr>)"
  by (simp add: loop_body_def respawn_def read_step_def try_body_def timedelta_minutes_def
      empty_read_at_def idle_iter_def running_worker_def terminate_process_def
      terminate_body_def quiet_env_def)

text \<open>
  C10. The comparison of line 67 is evaluated, and the stall message printed, only in an
  iteration whose read returned the empty string while \<open>poll\<close> reported the child running.
  So over a whole run: when no read of the worker returns the empty string with the child
  running (every read yields a line, blocks, or finds the child exited), no stall check is
  ever made.
\<close>

theorem stall_check_only_on_empty_read:
  "(\<forall>ev\<in>set (fst (loop_body e c w sl tm s)). is_stall ev \<longrightarrow>
       readline e = Line [] \<and> poll_empty e = None) \<and>
   (\<forall>ev\<in>set (fst (run_worker env c w sl tm)). is_stall ev \<longrightarrow>
       (\<exists>e\<in>set (iterations env). readline e = Line [] \<and> poll_empty e = None))"
proof -
  have one: "readline e = Line [] \<and> poll_empty e = None"
    if "ev \<in> set (fst (loop_body e c w sl tm s))" "is_stall ev" for ev
    using that by (cases "loop_body e c w sl tm s") (auto dest: loop_body_stall)
  have run: "\<exists>e\<in>set (iterations env). readline e = Line [] \<and> poll_empty e = None"
    if "ev \<in> set (fst (run_worker env c w sl tm))" "is_stall ev" for ev
    using that unfolding run_worker_def
    by (cases "worker_loop c w sl tm (iterations env)
                 \<lparr>process = None, last_inference_time = now_init env\<rparr>")
       (auto dest: worker_loop_stall)
  from one run show ?thesis by blast
qed

theorem stall_check_only_on_empty_read_witness:
  "is_stall (StallCompare False) \<and>
   StallCompare False \<in> set (fst (loop_body idle_iter ''kuzco'' 0 False 60 running_worker)) \<and>
   readline idle_iter = Line [] \<and> poll_empty idle_iter = None"
proof -
  have m: "StallCompare False \<in> set (fst (loop_body idle_iter ''kuzco'' 0 False 60 running_worker))"
    by (simp add: loop_body_def respawn_def read_step_def try_body_def idle_iter_def
        running_worker_def timedelta_minutes_def)
  have i: "is_stall (StallCompare False)" by simp
  from stall_check_only_on_empty_read [of idle_iter "''kuzco''" 0 False 60 running_worker] m i
  have "readline idle_iter = Line [] \<and> poll_empty idle_iter = None" by blast
  with m i show ?thesis by simp
qed

subsection \<open>Exceptions\<close>

lemma respawn_raises: "respawn e c w s = (evs, Raises x) \<Longrightarrow> popen e = Inl x"
  using terminate_process_returns [of "term_restart e" "process s" w]
  by (auto simp: respawn_def split: if_splits prod.splits option.splits sum.splits)

lemma read_step_raises: "read_step e w sl tm s = (evs, Raises x) \<Longrightarrow> False"
  using terminate_process_returns [of "term_error e" "process s" w]
  by (auto simp: read_step_def split: prod.splits result.splits option.splits)

lemma loop_body_raises: "loop_body e c w sl tm s = (evs, Raises x) \<Longrightarrow> popen e = Inl x"
  by (auto simp: loop_body_def split: prod.splits result.splits
      dest: respawn_raises read_step_raises)

lemma after_loop_raises: "after_loop e w s = (evs, Raised x) \<Longrightarrow> False"
  using terminate_process_returns [of "term_stop e" "process s" w]
  by (auto simp: after_loop_def split: if_splits prod.splits option.splits)

lemma worker_loop_raises:
  "worker_loop c w sl tm es s = (evs, Raised x) \<Longrightarrow> \<exists>e\<in>set es. popen e = Inl x"
proof (induction es arbitrary: s evs)
  case Nil
  then show ?case by simp
next
  case (Cons e es)
  then show ?case
    by (auto split: if_splits prod.splits result.splits
        dest: after_loop_raises loop_body_raises)
qed

lemma run_worker_raises_only_popen:
  "snd (run_worker env c w sl tm) = Raised x \<Longrightarrow> \<exists>e\<in>set (iterations env). popen e = Inl x"
  unfolding run_worker_def
  by (cases "worker_loop c w sl tm (iterations env)
               \<lparr>process = None, last_inference_time = now_init env\<rparr>")
     (auto dest: worker_loop_raises)

text \<open>
  C2. \<open>subprocess.Popen\<close> (line 51) stands before the \<open>try\<close> of line 54: when the spawn
  fails, the exception leaves \<open>run_worker\<close> and ends the worker thread. (By
  \<open>run_worker_raises_only_popen\<close> it is the only exception that does.)
\<close>

theorem run_worker_spawn_failure_propagates:
  "run_worker spawn_fails ''kuzco worker start'' 0 False 60 = ([], Raised OSError)"
  by (simp add: run_worker_def spawn_fails_def idle_iter_def loop_body_def respawn_def)

subsection \<open>The scenario \<open>echo A; sleep 600\<close>\<close>

text \<open>
  C4. With a timeout of one minute, 61 seconds after the spawn: each of the two workers
  has started its child and passed on the line \<open>A\<close>, and is blocked in its second
  \<open>readline\<close>. No stall check has been made, nothing was terminated, nothing respawned.
\<close>

theorem echo_sleep_never_stalls:
  "run_worker (echo_sleep 100) ''echo A; sleep 600'' 0 False 1 =
     ([Popen ''echo A; sleep 600'' 100, LogOutput 0 (ascii ''A'')], BlockedInRead) \<and>
   run_worker (echo_sleep 101) ''echo A; sleep 600'' 1 False 1 =
     ([Popen ''echo A; sleep 600'' 101, LogOutput 1 (ascii ''A'')], BlockedInRead)"
  by (simp add: run_worker_def echo_sleep_def first_line_def silent_child_def idle_iter_def
      loop_body_def respawn_def read_step_def try_body_def strip_def is_space_def ascii_def)

section \<open>Properties of the supervisor\<close>

subsection \<open>Traces of the supervisor\<close>

lemma running_append: "running S (xs @ ys) = running (running S xs) ys"
  by (induction xs arbitrary: S) auto

lemma always_now: "always P S evs \<Longrightarrow> P S"
  by (cases evs) simp_all

lemma always_append: "always P S (xs @ ys) = (always P S xs \<and> always P (running S xs) ys)"
proof (induction xs arbitrary: S)
  case Nil
  show ?case using always_now [of P S ys] by auto
next
  case (Cons x xs)
  then show ?case by simp
qed

lemma step_running_bound: "step_running S ev \<subseteq> S \<union> {t. ev = ThreadStart t}"
  by (cases ev) auto

lemma always_bounded:
  "(\<And>A. A \<subseteq> S \<union> {t. ThreadStart t \<in> set evs} \<Longrightarrow> P A) \<Longrightarrow> always P S evs"
proof (induction evs arbitrary: S)
  case Nil
  then show ?case by simp
next
  case (Cons ev evs)
  have "P S" using Cons.prems by blast
  moreover have "always P (step_running S ev) evs"
  proof (rule Cons.IH)
    fix A assume "A \<subseteq> step_running S ev \<union> {t. ThreadStart t \<in> set evs}"
    with step_running_bound [of S ev] have "A \<subseteq> S \<union> {t. ThreadStart t \<in> set (ev # evs)}"
      by auto
    then show "P A" by (rule Cons.prems)
  qed
  ultimately show ?case by simp
qed

lemma running_joins: "running S (map ThreadJoin ts) = S - set ts"
  by (induction ts arbitrary: S) auto

lemma running_starts: "running S (concat (map (\<lambda>t. [ThreadStart t, Sleep 1]) ts)) = S \<union> set ts"
  by (induction ts arbitrary: S) auto

lemma started_in_starts:
  "ThreadStart t \<in> set (concat (map (\<lambda>t. [ThreadStart t, Sleep 1]) ts)) \<longleftrightarrow> t \<in> set ts"
  by (induction ts) auto

lemma start_threads_trace:
  "fst (start_threads k c sl tm is) =
     concat (map (\<lambda>t. [ThreadStart t, Sleep 1]) (snd (start_threads k c sl tm is)))"
  by (induction "is" arbitrary: k) (auto simp: Let_def case_prod_beta)

lemma start_threads_ids: "map worker_id (snd (start_threads k c sl tm is)) = is"
  by (induction "is" arbitrary: k) (auto simp: Let_def case_prod_beta)

lemma start_threads_idents:
  "t \<in> set (snd (start_threads k c sl tm is)) \<Longrightarrow> k \<le> ident t \<and> ident t < k + length is"
proof (induction "is" arbitrary: k)
  case Nil
  then show ?case by simp
next
  case (Cons i "is")
  from Cons.prems consider "t = Thread k c i sl tm"
    | "t \<in> set (snd (start_threads (Suc k) c sl tm is))"
    by (auto simp: Let_def case_prod_beta)
  then show ?case
  proof cases
    case 1
    then show ?thesis by simp
  next
    case 2
    from Cons.IH [OF 2] show ?thesis by simp
  qed
qed

lemma start_threads_length: "length (snd (start_threads k c sl tm is)) = length is"
  using start_threads_ids [of k c sl tm "is"] by (metis length_map)

lemma join_all_trace: "fst (join_all wenv ts) = map ThreadJoin (takeWhile (join wenv) ts)"
  by (induction ts) (auto split: prod.splits)

lemma join_all_result: "snd (join_all wenv ts) = find (\<lambda>t. \<not> join wenv t) ts"
  by (induction ts) (auto split: prod.splits)

lemma join_all_ok:
  "\<forall>t\<in>set ts. join wenv t \<Longrightarrow> join_all wenv ts = (map ThreadJoin ts, None)"
  by (induction ts) auto

lemma restart_ok:
  assumes "\<forall>t\<in>set threads. join wenv t"
  shows "restart_all_workers wenv st threads c sl tm =
     (LogRestartingAll # SetStop # map ThreadJoin threads @ ClearStop #
        concat (map (\<lambda>t. [ThreadStart t, Sleep 1])
          (snd (start_threads (created st) c sl tm [0..<length threads]))),
      Continues (st\<lparr>stop_flag := False, created := created st + length threads\<rparr>,
                 snd (start_threads (created st) c sl tm [0..<length threads])))"
  using start_threads_trace [of "created st" c sl tm "[0..<length threads]"]
  by (simp add: restart_all_workers_def join_all_ok [OF assms] py_range_def case_prod_beta)

lemma restart_blocked:
  assumes "\<not> (\<forall>t\<in>set threads. join wenv t)"
  shows "\<exists>t\<in>set threads. \<not> join wenv t \<and>
     restart_all_workers wenv st threads c sl tm =
       (LogRestartingAll # SetStop # map ThreadJoin (takeWhile (join wenv) threads),
        JoinBlocks t)"
proof -
  from assms obtain t where f: "find (\<lambda>t. \<not> join wenv t) threads = Some t"
    by (cases "find (\<lambda>t. \<not> join wenv t) threads") (auto simp: find_None_iff)
  then have t: "t \<in> set threads" "\<not> join wenv t"
    by (auto simp: find_Some_iff)
  have "join_all wenv threads = (map ThreadJoin (takeWhile (join wenv) threads), Some t)"
    using join_all_trace [of wenv threads] join_all_result [of wenv threads] f
    by (metis prod.collapse)
  then show ?thesis using t by (auto simp: restart_all_workers_def)
qed

lemma started_append: "started (xs @ ys) = started xs @ started ys"
  by (induction xs rule: started.induct) auto

lemma started_joins: "started (map ThreadJoin ts) = []"
  by (induction ts) auto

lemma started_starts: "started (concat (map (\<lambda>t. [ThreadStart t, Sleep 1]) ts)) = map worker_id ts"
  by (induction ts) auto

lemma staggered_append: "staggered xs \<Longrightarrow> staggered ys \<Longrightarrow> staggered (xs @ ys)"
  by (induction xs rule: staggered.induct) (auto split: list.splits event.splits)

lemma staggered_joins: "staggered (map ThreadJoin ts)"
  by (induction ts) auto

lemma staggered_starts: "staggered (concat (map (\<lambda>t. [ThreadStart t, Sleep 1]) ts))"
  by (induction ts) auto

lemma unique_ids_subset: "unique_ids B \<Longrightarrow> A \<subseteq> B \<Longrightarrow> unique_ids A"
  by (auto simp: unique_ids_def)

lemma unique_ids_new: "unique_ids (set (snd (start_threads k c sl tm [0..<n])))"
proof -
  have "distinct (map worker_id (snd (start_threads k c sl tm [0..<n])))"
    by (simp add: start_threads_ids)
  then have "inj_on worker_id (set (snd (start_threads k c sl tm [0..<n])))"
    by (simp add: distinct_map)
  then show ?thesis by (auto simp: unique_ids_def dest: inj_onD)
qed

lemma kbd_trace:
  "\<exists>pre fin r. on_keyboard_interrupt wenv a st threads =
      (LogStoppingAll # SetStop # map ThreadJoin pre @ fin, r) \<and>
      (fin = [] \<or> fin = [LogAllFinished])"
proof (cases "join_all wenv threads")
  case (Pair evs r)
  have e: "evs = map ThreadJoin (takeWhile (join wenv) threads)"
    using join_all_trace [of wenv threads] Pair by simp
  show ?thesis
    by (cases r) (auto simp: on_keyboard_interrupt_def Pair e)
qed

lemma restart_cases:
  obtains (ok) "\<forall>t\<in>set threads. join wenv t"
      "restart_all_workers wenv st threads c sl tm =
        (LogRestartingAll # SetStop # map ThreadJoin threads @ ClearStop #
           concat (map (\<lambda>t. [ThreadStart t, Sleep 1])
             (snd (start_threads (created st) c sl tm [0..<length threads]))),
         Continues (st\<lparr>stop_flag := False, created := created st + length threads\<rparr>,
                    snd (start_threads (created st) c sl tm [0..<length threads])))"
  | (blocked) t where "t \<in> set threads" "\<not> join wenv t"
      "restart_all_workers wenv st threads c sl tm =
        (LogRestartingAll # SetStop # map ThreadJoin (takeWhile (join wenv) threads),
         JoinBlocks t)"
  using restart_ok [of threads wenv st c sl tm] restart_blocked [of threads wenv st c sl tm]
  by blast

lemma main_loop_started:
  "\<exists>k. started (fst (main_loop wenv a script st threads)) =
     concat (replicate k [0..<length threads])"
proof (induction script arbitrary: st threads)
  case Nil
  show ?case by (auto intro: exI [of _ 0])
next
  case (Cons ev script)
  show ?case
  proof (cases ev)
    case SIGINT
    show ?thesis
    proof (cases "sigint st")
      case DefaultIntHandler
      obtain pre fin r where "on_keyboard_interrupt wenv a st threads =
          (LogStoppingAll # SetStop # map ThreadJoin pre @ fin, r)"
        "fin = [] \<or> fin = [LogAllFinished]"
        using kbd_trace by blast
      then have "started (fst (main_loop wenv a (ev # script) st threads)) = []"
        using SIGINT DefaultIntHandler by (auto simp: started_append started_joins)
      then show ?thesis by (auto intro: exI [of _ 0])
    next
      case SignalHandler
      from Cons.IH [of "st\<lparr>stop_flag := True\<rparr>" threads] show ?thesis
        using SIGINT SignalHandler by (simp add: signal_handler_def case_prod_beta)
    qed
  next
    case Slept
    show ?thesis
    proof (cases rule: restart_cases
        [of threads wenv st "command a" "silent a" "no_inference_timeout a"])
      case ok
      let ?new = "snd (start_threads (created st) (command a) (silent a)
                    (no_inference_timeout a) [0..<length threads])"
      have len: "length ?new = length threads"
        by (simp add: start_threads_length)
      obtain k where k: "started (fst (main_loop wenv a script
            (st\<lparr>stop_flag := False, created := created st + length threads\<rparr>) ?new)) =
          concat (replicate k [0..<length threads])"
        using Cons.IH [of "st\<lparr>stop_flag := False, created := created st + length threads\<rparr>" ?new]
        by (auto simp: len)
      have "started (fst (main_loop wenv a (ev # script) st threads)) =
          concat (replicate (Suc k) [0..<length threads])"
        using Slept ok(2) k
        by (simp add: case_prod_beta started_append started_joins started_starts
            start_threads_ids)
      then show ?thesis by blast
    next
      case (blocked t)
      have "started (fst (main_loop wenv a (ev # script) st threads)) = []"
        using Slept blocked(3) by (simp add: started_joins)
      then show ?thesis by (auto intro: exI [of _ 0])
    qed
  qed
qed

lemma main_loop_staggered: "staggered (fst (main_loop wenv a script st threads))"
proof (induction script arbitrary: st threads)
  case Nil
  show ?case by simp
next
  case (Cons ev script)
  show ?case
  proof (cases ev)
    case SIGINT
    show ?thesis
    proof (cases "sigint st")
      case DefaultIntHandler
      obtain pre fin r where "on_keyboard_interrupt wenv a st threads =
          (LogStoppingAll # SetStop # map ThreadJoin pre @ fin, r)"
        "fin = [] \<or> fin = [LogAllFinished]"
        using kbd_trace by blast
      then show ?thesis
        using SIGINT DefaultIntHandler by (auto intro!: staggered_append staggered_joins)
    next
      case SignalHandler
      from Cons.IH [of "st\<lparr>stop_flag := True\<rparr>" threads] show ?thesis
        using SIGINT SignalHandler by (simp add: signal_handler_def case_prod_beta)
    qed
  next
    case Slept
    show ?thesis
    proof (cases rule: restart_cases
        [of threads wenv st "command a" "silent a" "no_inference_timeout a"])
      case ok
      show ?thesis
        using Slept ok(2) Cons.IH
        by (auto simp: case_prod_beta
            intro!: staggered_append staggered_joins staggered_starts)
    next
      case (blocked t)
      show ?thesis
        using Slept blocked(3) by (simp add: staggered_joins)
    qed
  qed
qed

lemma startup_eq:
  "startup a =
     ((if \<not> silent a then [LogStarting (instances a)] else []) @
        concat (map (\<lambda>t. [ThreadStart t, Sleep 1])
          (snd (start_threads 0 (command a) (silent a) (no_inference_timeout a)
             [0..<nat (instances a)]))),
      snd (start_threads 0 (command a) (silent a) (no_inference_timeout a)
             [0..<nat (instances a)]))"
  using start_threads_trace [of 0 "command a" "silent a" "no_inference_timeout a"
      "[0..<nat (instances a)]"]
  by (simp add: startup_def py_range_def case_prod_beta)

lemma main_eq:
  "main wenv a script =
     (fst (startup a) @
        fst (main_loop wenv a script
          \<lparr>stop_flag = False, sigint = SignalHandler, created = length (snd (startup a))\<rparr>
          (snd (startup a))),
      snd (main_loop wenv a script
          \<lparr>stop_flag = False, sigint = SignalHandler, created = length (snd (startup a))\<rparr>
          (snd (startup a))))"
  by (simp add: main_def case_prod_beta Let_def)


lemma always_no_start:
  assumes "\<And>t. ThreadStart t \<notin> set evs" and "\<And>A. A \<subseteq> S \<Longrightarrow> P A"
  shows "always P S evs"
  by (rule always_bounded) (use assms in auto)

lemma running_no_start_joins:
  "running S (LogRestartingAll # SetStop # map ThreadJoin ts) = S - set ts"
  by (simp add: running_joins)

lemma restart_always:
  assumes old: "\<And>A. A \<subseteq> set threads \<Longrightarrow> P A"
    and new: "\<And>A. A \<subseteq> set (snd (start_threads (created st) c sl tm [0..<length threads])) \<Longrightarrow> P A"
  shows "always P (set threads) (fst (restart_all_workers wenv st threads c sl tm))"
proof (cases rule: restart_cases [of threads wenv st c sl tm])
  case ok
  let ?new = "snd (start_threads (created st) c sl tm [0..<length threads])"
  have 1: "always P (set threads) (LogRestartingAll # SetStop # map ThreadJoin threads)"
    by (rule always_no_start) (use old in auto)
  have 2: "always P {} (ClearStop # concat (map (\<lambda>t. [ThreadStart t, Sleep 1]) ?new))"
    by (rule always_bounded) (use new in \<open>auto simp: started_in_starts\<close>)
  have "fst (restart_all_workers wenv st threads c sl tm) =
      (LogRestartingAll # SetStop # map ThreadJoin threads) @
      (ClearStop # concat (map (\<lambda>t. [ThreadStart t, Sleep 1]) ?new))"
    using ok(2) by simp
  then show ?thesis
    using 1 2 by (simp only: always_append running_no_start_joins Diff_cancel simp_thms)
next
  case (blocked t)
  have "always P (set threads)
      (LogRestartingAll # SetStop # map ThreadJoin (takeWhile (join wenv) threads))"
    by (rule always_no_start) (use old in auto)
  then show ?thesis using blocked(3) by simp
qed

lemma restart_running:
  assumes "\<forall>t\<in>set threads. join wenv t"
  shows "running (set threads) (fst (restart_all_workers wenv st threads c sl tm)) =
     set (snd (start_threads (created st) c sl tm [0..<length threads]))"
proof -
  let ?new = "snd (start_threads (created st) c sl tm [0..<length threads])"
  have "fst (restart_all_workers wenv st threads c sl tm) =
      (LogRestartingAll # SetStop # map ThreadJoin threads) @ [ClearStop] @
      concat (map (\<lambda>t. [ThreadStart t, Sleep 1]) ?new)"
    using restart_ok [OF assms, of st c sl tm] by simp
  then show ?thesis
    by (simp only: running_append running_no_start_joins running_starts) simp
qed

lemma main_loop_unique:
  "unique_ids (set threads) \<Longrightarrow>
   always unique_ids (set threads) (fst (main_loop wenv a script st threads))"
proof (induction script arbitrary: st threads)
  case Nil
  then show ?case by simp
next
  case (Cons ev script)
  show ?case
  proof (cases ev)
    case SIGINT
    show ?thesis
    proof (cases "sigint st")
      case DefaultIntHandler
      obtain pre fin r where k: "on_keyboard_interrupt wenv a st threads =
          (LogStoppingAll # SetStop # map ThreadJoin pre @ fin, r)"
        "fin = [] \<or> fin = [LogAllFinished]"
        using kbd_trace by blast
      have "always unique_ids (set threads) (LogStoppingAll # SetStop # map ThreadJoin pre @ fin)"
        by (rule always_no_start) (use k(2) Cons.prems in \<open>auto intro: unique_ids_subset\<close>)
      then show ?thesis using SIGINT DefaultIntHandler k(1) by simp
    next
      case SignalHandler
      from Cons.IH [OF Cons.prems, of "st\<lparr>stop_flag := True\<rparr>"] Cons.prems show ?thesis
        using SIGINT SignalHandler by (simp add: signal_handler_def case_prod_beta)
    qed
  next
    case Slept
    let ?c = "command a" and ?sl = "silent a" and ?tm = "no_inference_timeout a"
    let ?new = "snd (start_threads (created st) ?c ?sl ?tm [0..<length threads])"
    have r: "always unique_ids (set threads)
        (fst (restart_all_workers wenv st threads ?c ?sl ?tm))"
    proof (rule restart_always)
      fix A assume "A \<subseteq> set threads"
      with Cons.prems show "unique_ids A" by (rule unique_ids_subset)
    next
      fix A assume "A \<subseteq> set ?new"
      with unique_ids_new show "unique_ids A" by (rule unique_ids_subset)
    qed
    show ?thesis
    proof (cases rule: restart_cases [of threads wenv st ?c ?sl ?tm])
      case ok
      let ?st = "st\<lparr>stop_flag := False, created := created st + length threads\<rparr>"
      have ih: "always unique_ids (set ?new) (fst (main_loop wenv a script ?st ?new))"
        by (rule Cons.IH) (rule unique_ids_new)
      have run: "running (set threads) (fst (restart_all_workers wenv st threads ?c ?sl ?tm)) =
          set ?new"
        by (rule restart_running) (rule ok(1))
      have "fst (main_loop wenv a (ev # script) st threads) =
          Sleep 300 # fst (restart_all_workers wenv st threads ?c ?sl ?tm) @
            fst (main_loop wenv a script ?st ?new)"
        using Slept ok(2) by (simp add: case_prod_beta)
      then show ?thesis
        using r ih run Cons.prems by (simp add: always_append)
    next
      case (blocked t)
      have "fst (main_loop wenv a (ev # script) st threads) =
          Sleep 300 # fst (restart_all_workers wenv st threads ?c ?sl ?tm)"
        using Slept blocked(3) by simp
      then show ?thesis using r Cons.prems by simp
    qed
  qed
qed

lemma main_unique: "always unique_ids {} (fst (main wenv a script))"
proof -
  let ?ts = "snd (startup a)"
  have u: "unique_ids (set ?ts)"
    using unique_ids_new [of 0 "command a" "silent a" "no_inference_timeout a" "nat (instances a)"]
    by (simp add: startup_eq)
  have 1: "always unique_ids {} (fst (startup a))"
    by (rule always_bounded)
       (use u in \<open>auto simp: startup_eq started_in_starts intro: unique_ids_subset\<close>)
  have 2: "running {} (fst (startup a)) = set ?ts"
    by (simp add: startup_eq running_append running_starts)
  show ?thesis
    using 1 2 main_loop_unique [OF u] by (simp add: main_eq always_append)
qed


lemma obedient_returns: "snd (run_worker obedient c w sl tm) = Returned"
  by (simp add: run_worker_def obedient_def first_line_def idle_iter_def loop_body_def
      respawn_def read_step_def try_body_def after_loop_def terminate_process_def
      terminate_body_def quiet_env_def)

lemma join_obedient: "join obedient_fleet t"
  by (simp add: join_def obedient_fleet_def obedient_returns)



lemma main_loop_never_exits:
  "sigint st = SignalHandler \<Longrightarrow> snd (main_loop wenv a script st threads) \<noteq> Exits"
proof (induction script arbitrary: st threads)
  case Nil
  show ?case by simp
next
  case (Cons ev script)
  show ?case
  proof (cases ev)
    case SIGINT
    with Cons.IH [of "st\<lparr>stop_flag := True\<rparr>" threads] Cons.prems show ?thesis
      by (simp add: signal_handler_def case_prod_beta)
  next
    case Slept
    show ?thesis
    proof (cases rule: restart_cases
        [of threads wenv st "command a" "silent a" "no_inference_timeout a"])
      case ok
      with Cons.IH [of "st\<lparr>stop_flag := False, created := created st + length threads\<rparr>"]
        Cons.prems Slept show ?thesis
        by (simp add: case_prod_beta)
    next
      case (blocked t)
      with Slept show ?thesis by simp
    qed
  qed
qed

lemma main_never_exits: "snd (main wenv a script) \<noteq> Exits"
  by (simp add: main_eq main_loop_never_exits)


lemma no_touch_joins: "ev \<in> set (map ThreadJoin ts) \<Longrightarrow> \<not> touches_child ev"
  by auto

lemma no_touch_starts:
  "ev \<in> set (concat (map (\<lambda>t. [ThreadStart t, Sleep 1]) ts)) \<Longrightarrow> \<not> touches_child ev"
  by auto





subsection \<open>Starting the fleet\<close>

text \<open>
  C8. For \<open>N \<ge> 1\<close> instances: the startup creates \<open>N\<close> threads whose worker ids are
  \<open>0, \<dots>, N - 1\<close> in this order (so they are distinct), and its trace is, after the
  message, a start followed by a sleep of one second for each of them in turn. A restart of
  \<open>N\<close> threads whose joins return does the same after its joins. In every run of \<open>main\<close>
  the worker ids started are \<open>0, \<dots>, N - 1\<close> repeated, once for the startup and once for
  each restart that got past its joins, and every start is followed at once by the sleep of
  one second.
\<close>

theorem fleet_starts_in_order:
  assumes "1 \<le> N" and "instances a = N"
  shows "map worker_id (snd (startup a)) = [0..<nat N] \<and>
    fst (startup a) =
      (if \<not> silent a then [LogStarting N] else []) @
        concat (map (\<lambda>t. [ThreadStart t, Sleep 1]) (snd (startup a))) \<and>
    (length threads = nat N \<and> (\<forall>t\<in>set threads. join wenv t) \<longrightarrow>
       (\<exists>st' new. restart_all_workers wenv st threads c sl tm =
          (LogRestartingAll # SetStop # map ThreadJoin threads @ ClearStop #
             concat (map (\<lambda>t. [ThreadStart t, Sleep 1]) new),
           Continues (st', new)) \<and>
          map worker_id new = [0..<nat N])) \<and>
    (\<exists>k. started (fst (main wenv a script)) = concat (replicate (Suc k) [0..<nat N])) \<and>
    staggered (fst (main wenv a script))"
proof -
  have ids: "map worker_id (snd (startup a)) = [0..<nat N]"
    using assms(2) by (simp add: startup_eq start_threads_ids)
  have tr: "fst (startup a) =
      (if \<not> silent a then [LogStarting N] else []) @
        concat (map (\<lambda>t. [ThreadStart t, Sleep 1]) (snd (startup a)))"
    using assms(2) by (simp add: startup_eq)
  have re: "\<exists>st' new. restart_all_workers wenv st threads c sl tm =
          (LogRestartingAll # SetStop # map ThreadJoin threads @ ClearStop #
             concat (map (\<lambda>t. [ThreadStart t, Sleep 1]) new),
           Continues (st', new)) \<and>
          map worker_id new = [0..<nat N]"
    if "length threads = nat N" "\<forall>t\<in>set threads. join wenv t"
    using restart_ok [OF that(2), of st c sl tm] that(1)
    by (auto simp: start_threads_ids)
  have len: "length (snd (startup a)) = nat N"
    using ids by (metis length_map length_upt minus_nat.diff_0)
  obtain k where k: "started (fst (main_loop wenv a script
          \<lparr>stop_flag = False, sigint = SignalHandler, created = length (snd (startup a))\<rparr>
          (snd (startup a)))) = concat (replicate k [0..<nat N])"
    using main_loop_started [of wenv a script _ "snd (startup a)"] len by auto
  have "started (fst (startup a)) = [0..<nat N]"
    using tr ids by (simp add: started_append started_starts)
  then have st: "started (fst (main wenv a script)) = concat (replicate (Suc k) [0..<nat N])"
    using k by (simp add: main_eq started_append)
  have "staggered (fst (startup a))"
    using tr by (auto intro!: staggered_append staggered_starts)
  then have sg: "staggered (fst (main wenv a script))"
    by (simp add: main_eq staggered_append main_loop_staggered)
  from ids tr re st sg show ?thesis by blast
qed

theorem fleet_starts_in_order_witness:
  "(1::int) \<le> 2 \<and> instances two_workers = 2 \<and>
   map worker_id (snd (startup two_workers)) = [0, 1] \<and>
   fst (startup two_workers) =
     [ThreadStart (Thread 0 ''kuzco'' 0 True 60), Sleep 1,
      ThreadStart (Thread 1 ''kuzco'' 1 True 60), Sleep 1]"
proof -
  have h1: "(1::int) \<le> 2" by simp
  have h2: "instances two_workers = 2" by (simp add: two_workers_def)
  have ts: "snd (startup two_workers) =
      [Thread 0 ''kuzco'' 0 True 60, Thread 1 ''kuzco'' 1 True 60]"
    by (simp add: startup_def two_workers_def py_range_def Let_def upt_conv_Cons)
  have sl: "silent two_workers" by (simp add: two_workers_def)
  from fleet_starts_in_order [OF h1 h2] ts sl h2 show ?thesis
    by (simp add: upt_conv_Cons)
qed

subsection \<open>The periodic restart\<close>

text \<open>
  C7. \<open>restart_all_workers\<close>, on threads created before (their numbers are below
  \<open>created\<close>): when the joins return, its trace is exactly the message, the setting of the
  stop flag, the join of every thread in turn, the clearing of the flag, and then the
  starts of the new threads, none of which is an old one. During it (also when a join does
  not return) the running threads are at every moment either all of the old generation or
  none of them is. And in every run of \<open>main\<close>, at every moment, no two running threads have
  the same worker id.
\<close>

theorem restart_joins_before_starts:
  assumes "\<forall>t\<in>set threads. ident t < created st"
  shows "((\<forall>t\<in>set threads. join wenv t) \<longrightarrow>
      (\<exists>new. restart_all_workers wenv st threads c sl tm =
         (LogRestartingAll # SetStop # map ThreadJoin threads @ ClearStop #
            concat (map (\<lambda>t. [ThreadStart t, Sleep 1]) new),
          Continues (st\<lparr>stop_flag := False, created := created st + length threads\<rparr>, new)) \<and>
         set new \<inter> set threads = {})) \<and>
    always (apart (set threads)) (set threads)
      (fst (restart_all_workers wenv st threads c sl tm)) \<and>
    always unique_ids {} (fst (main wenv a script))"
proof -
  let ?new = "snd (start_threads (created st) c sl tm [0..<length threads])"
  have fresh: "set ?new \<inter> set threads = {}"
    using assms start_threads_idents [of _ "created st" c sl tm "[0..<length threads]"]
    by fastforce
  have a: "\<exists>new. restart_all_workers wenv st threads c sl tm =
         (LogRestartingAll # SetStop # map ThreadJoin threads @ ClearStop #
            concat (map (\<lambda>t. [ThreadStart t, Sleep 1]) new),
          Continues (st\<lparr>stop_flag := False, created := created st + length threads\<rparr>, new)) \<and>
         set new \<inter> set threads = {}"
    if "\<forall>t\<in>set threads. join wenv t"
    using restart_ok [OF that, of st c sl tm] fresh by blast
  have b: "always (apart (set threads)) (set threads)
      (fst (restart_all_workers wenv st threads c sl tm))"
    by (rule restart_always) (use fresh in \<open>auto simp: apart_def\<close>)
  from a b main_unique show ?thesis by blast
qed

theorem restart_joins_before_starts_witness:
  "ident (Thread 0 ''kuzco'' 0 True 60) < created (fresh_state 2) \<and>
   ident (Thread 1 ''kuzco'' 1 True 60) < created (fresh_state 2) \<and>
   join obedient_fleet (Thread 0 ''kuzco'' 0 True 60) \<and>
   join obedient_fleet (Thread 1 ''kuzco'' 1 True 60) \<and>
   restart_all_workers obedient_fleet (fresh_state 2)
       [Thread 0 ''kuzco'' 0 True 60, Thread 1 ''kuzco'' 1 True 60] ''kuzco'' True 60 =
     ([LogRestartingAll, SetStop, ThreadJoin (Thread 0 ''kuzco'' 0 True 60),
       ThreadJoin (Thread 1 ''kuzco'' 1 True 60), ClearStop,
       ThreadStart (Thread 2 ''kuzco'' 0 True 60), Sleep 1,
       ThreadStart (Thread 3 ''kuzco'' 1 True 60), Sleep 1],
      Continues (\<lparr>stop_flag = False, sigint = SignalHandler, created = 4\<rparr>,
                 [Thread 2 ''kuzco'' 0 True 60, Thread 3 ''kuzco'' 1 True 60])) \<and>
   always (apart {Thread 0 ''kuzco'' 0 True 60, Thread 1 ''kuzco'' 1 True 60})
     {Thread 0 ''kuzco'' 0 True 60, Thread 1 ''kuzco'' 1 True 60}
     [LogRestartingAll, SetStop, ThreadJoin (Thread 0 ''kuzco'' 0 True 60),
      ThreadJoin (Thread 1 ''kuzco'' 1 True 60), ClearStop,
      ThreadStart (Thread 2 ''kuzco'' 0 True 60), Sleep 1,
      ThreadStart (Thread 3 ''kuzco'' 1 True 60), Sleep 1]"
proof -
  let ?old = "[Thread 0 ''kuzco'' 0 True 60, Thread 1 ''kuzco'' 1 True 60]"
  have h: "\<forall>t\<in>set ?old. ident t < created (fresh_state 2)"
    by (simp add: fresh_state_def)
  have j: "\<forall>t\<in>set ?old. join obedient_fleet t"
    by (simp add: join_obedient)
  have e: "restart_all_workers obedient_fleet (fresh_state 2) ?old ''kuzco'' True 60 =
     ([LogRestartingAll, SetStop, ThreadJoin (Thread 0 ''kuzco'' 0 True 60),
       ThreadJoin (Thread 1 ''kuzco'' 1 True 60), ClearStop,
       ThreadStart (Thread 2 ''kuzco'' 0 True 60), Sleep 1,
       ThreadStart (Thread 3 ''kuzco'' 1 True 60), Sleep 1],
      Continues (\<lparr>stop_flag = False, sigint = SignalHandler, created = 4\<rparr>,
                 [Thread 2 ''kuzco'' 0 True 60, Thread 3 ''kuzco'' 1 True 60]))"
    by (simp add: restart_all_workers_def join_obedient fresh_state_def py_range_def Let_def
        upt_conv_Cons)
  from restart_joins_before_starts [OF h, of obedient_fleet "''kuzco''" True 60] e
  have "always (apart (set ?old)) (set ?old)
     [LogRestartingAll, SetStop, ThreadJoin (Thread 0 ''kuzco'' 0 True 60),
      ThreadJoin (Thread 1 ''kuzco'' 1 True 60), ClearStop,
      ThreadStart (Thread 2 ''kuzco'' 0 True 60), Sleep 1,
      ThreadStart (Thread 3 ''kuzco'' 1 True 60), Sleep 1]"
    by simp
  with h j e show ?thesis by simp
qed

subsection \<open>The interrupt\<close>

text \<open>
  C1. A \<open>SIGINT\<close> arrives while the main thread sleeps, and then the 300 seconds are over.
  Line 110 has put \<open>signal_handler\<close> in the place of the handler that raises
  \<open>KeyboardInterrupt\<close>: the handler sets the stop flag and returns, the sleep goes on, and
  the next \<open>restart_all_workers\<close> clears the flag and starts a new worker. The main thread
  is back in its sleep; it has not returned. (By \<open>main_never_exits\<close> it never does.)
\<close>

theorem interrupt_does_not_stop_supervisor:
  "main obedient_fleet one_worker [SIGINT, Slept] =
     ([LogStarting 1, ThreadStart (Thread 0 ''kuzco'' 0 False 60), Sleep 1,
       LogCtrlC, SetStop,
       Sleep 300, LogRestartingAll, SetStop, ThreadJoin (Thread 0 ''kuzco'' 0 False 60),
       ClearStop, ThreadStart (Thread 1 ''kuzco'' 0 False 60), Sleep 1],
      Sleeping \<lparr>stop_flag = False, sigint = SignalHandler, created = 2\<rparr>
        [Thread 1 ''kuzco'' 0 False 60])"
  by (simp add: main_def startup_def one_worker_def py_range_def signal_handler_def
      restart_all_workers_def join_obedient Let_def)


subsection \<open>Joining a worker that is blocked in a read\<close>





end
